theory Spec2Isabelle
  imports Complex_Main "HOL-Library.Multiset"
begin

section \<open>Depth measures for functional data (skfda/exploratory/depth.py)\<close>

text \<open>
  The module computes, for a collection of sampled functions sharing one discretisation
  grid, three depth measures: band depth, modified band depth and Fraiman-Muniz depth.
  numpy's float arrays are modelled over the reals, so results are exact where the
  program rounds; a Python exception is a value \<open>Inl e\<close> of the result type.
\<close>

subsection \<open>Errors and results\<close>

datatype error = ValueError string | IndexError

text \<open>
  A depth function returns either the depth array alone or, when \<open>pointwise\<close> is set,
  the pair of the depth array and the pointwise depth array.
\<close>

datatype depth_result = Depth "real list" | DepthPointwise "real list" "real list list"

fun depth_of :: "depth_result \<Rightarrow> real list" where
  "depth_of (Depth d) = d"
| "depth_of (DepthPointwise d dp) = d"

subsection \<open>The grid\<close>

text \<open>
  Modelled from the spec: the class FDataGrid (the Grid Accessor) is imported by depth.py
  and defined in another module of the package. The record carries what the depth functions read:
  the sampled values, the per-axis coordinates, the per-axis domain bounds and the image
  dimension. The value array of shape (samples, grid shape, image dimension) is stored
  with the grid axes flattened into one: \<open>data_matrix fd ! i ! t ! k\<close> is component \<open>k\<close>
  of sample \<open>i\<close> at the \<open>t\<close>-th grid point. Every reduction of the program over the grid
  axes runs over all of them at once, so the flattening loses nothing.
\<close>

record fdatagrid =
  data_matrix :: "real list list list"
  sample_points :: "real list list"
  domain_range :: "(real \<times> real) list"
  ndim_image :: nat

definition nsamples :: "fdatagrid \<Rightarrow> nat" where
  "nsamples fd = length (data_matrix fd)"

definition ndim_domain :: "fdatagrid \<Rightarrow> nat" where
  "ndim_domain fd = length (sample_points fd)"

text \<open>The number of grid points: the product of the lengths of the coordinate axes.\<close>

definition npoints :: "fdatagrid \<Rightarrow> nat" where
  "npoints fd = prod_list (map length (sample_points fd))"

text \<open>
  The shape invariant of the grid: at least one sample and one axis, every axis non-empty
  with strictly increasing coordinates, one pair of bounds per axis, and a rectangular
  value array whose dimensions are those the accessors report.
\<close>

definition grid_ok :: "fdatagrid \<Rightarrow> bool" where
  "grid_ok fd \<longleftrightarrow>
     1 \<le> nsamples fd \<and> 1 \<le> ndim_domain fd \<and> 1 \<le> ndim_image fd \<and>
     list_all (\<lambda>ax. ax \<noteq> [] \<and> sorted_wrt (<) ax) (sample_points fd) \<and>
     length (domain_range fd) = ndim_domain fd \<and>
     list_all (\<lambda>s. length s = npoints fd \<and> list_all (\<lambda>p. length p = ndim_image fd) s)
       (data_matrix fd)"

text \<open>The slice \<open>data_matrix[:, t, 0]\<close>: the scalar values of all samples at grid point \<open>t\<close>.\<close>

definition column_at :: "fdatagrid \<Rightarrow> nat \<Rightarrow> real list" where
  "column_at fd t = map (\<lambda>s. s ! t ! 0) (data_matrix fd)"

subsection \<open>Ranking\<close>

text \<open>
  Modelled from the spec: \<open>scipy.stats.rankdata(a, method='max')\<close> is a library function
  outside the repository. It ranks by position in the sorted array, starting at 1, and
  gives every value of a tie group the largest position of the group (competition
  ranking with ties taking the maximum rank). \<open>last_pos v s\<close> is the 1-based position of
  the last occurrence of \<open>v\<close> in \<open>s\<close>, and 0 when there is none.
\<close>

fun last_pos :: "real \<Rightarrow> real list \<Rightarrow> nat" where
  "last_pos v [] = 0"
| "last_pos v (u # us) =
     (let r = last_pos v us in if 0 < r then Suc r else if u = v then 1 else 0)"

definition rankdata_max :: "real list \<Rightarrow> real list" where
  "rankdata_max a = (let s = sort a in map (\<lambda>v. real (last_pos v s)) a)"

text \<open>
  \<open>_rank_samples\<close>: after the guard on the image dimension, the loop visits every grid
  index of \<open>ranks[0]\<close> and writes the ranks of that column into \<open>ranks[:, index]\<close>.
  \<open>ranks[0]\<close> fails on an array without samples.
\<close>

definition rank_samples :: "fdatagrid \<Rightarrow> error + real list list" where
  "rank_samples fd =
     (if 1 < ndim_image fd then Inl (ValueError ''Currently multivariate data is not allowed'')
      else case data_matrix fd of
        [] \<Rightarrow> Inl IndexError
      | s0 # _ \<Rightarrow>
          (let cols = map (\<lambda>t. rankdata_max (column_at fd t)) [0..<length s0]
           in Inr (map (\<lambda>i. map (\<lambda>c. c ! i) cols) [0..<nsamples fd])))"

subsection \<open>Band depth and modified band depth\<close>

text \<open>
  \<open>np.amax\<close> and \<open>np.amin\<close> over the grid axes of one sample; numpy raises ValueError on
  a reduction of an empty array that has no identity.
\<close>

definition amax :: "real list \<Rightarrow> error + real" where
  "amax row = (case row of
      [] \<Rightarrow> Inl (ValueError ''zero-size array to reduction operation maximum which has no identity'')
    | r # rs \<Rightarrow> Inr (fold max rs r))"

definition amin :: "real list \<Rightarrow> error + real" where
  "amin row = (case row of
      [] \<Rightarrow> Inl (ValueError ''zero-size array to reduction operation minimum which has no identity'')
    | r # rs \<Rightarrow> Inr (fold min rs r))"

text \<open>Applying a function that may raise to every element, stopping at the first error.\<close>

fun map_result :: "('a \<Rightarrow> error + 'b) \<Rightarrow> 'a list \<Rightarrow> error + 'b list" where
  "map_result f [] = Inr []"
| "map_result f (x # xs) =
     (case f x of
        Inl e \<Rightarrow> Inl e
      | Inr y \<Rightarrow> (case map_result f xs of Inl e \<Rightarrow> Inl e | Inr ys \<Rightarrow> Inr (y # ys)))"

definition modified_band_depth :: "fdatagrid \<Rightarrow> bool \<Rightarrow> error + depth_result" where
  "modified_band_depth fd pointwise =
     (let n = real (nsamples fd);
          nchoose2 = n * (n - 1) / 2
      in case rank_samples fd of
        Inl e \<Rightarrow> Inl e
      | Inr ranks \<Rightarrow>
          (let match = map (map (\<lambda>r. (n - r) * (r - 1))) ranks;
               npoints_sample = foldl (\<lambda>x y. x * length y) 1 (sample_points fd);
               proportion = map (\<lambda>row. sum_list row / real npoints_sample) match;
               depth = map (\<lambda>p. (p + n - 1) / nchoose2) proportion
           in if pointwise
              then Inr (DepthPointwise depth (map (map (\<lambda>m. (m + n - 1) / nchoose2)) match))
              else Inr (Depth depth)))"

text \<open>
  In \<open>band_depth\<close> the pointwise array is the second component of the pair that
  \<open>modified_band_depth\<close> returns; unpacking anything else into two names fails.
\<close>

definition band_depth :: "fdatagrid \<Rightarrow> bool \<Rightarrow> error + depth_result" where
  "band_depth fd pointwise =
     (let n = real (nsamples fd);
          nchoose2 = n * (n - 1) / 2
      in case rank_samples fd of
        Inl e \<Rightarrow> Inl e
      | Inr ranks \<Rightarrow>
          (case map_result amax ranks of
             Inl e \<Rightarrow> Inl e
           | Inr mx \<Rightarrow>
               (case map_result amin ranks of
                  Inl e \<Rightarrow> Inl e
                | Inr mn \<Rightarrow>
                    (let nsamples_above = map (\<lambda>m. n - m) mx;
                         nsamples_below = map (\<lambda>m. m - 1) mn;
                         depth = map2 (\<lambda>b a. (b * a + n - 1) / nchoose2)
                                   nsamples_below nsamples_above
                     in if pointwise
                        then (case modified_band_depth fd pointwise of
                                Inl e \<Rightarrow> Inl e
                              | Inr (DepthPointwise _ depth_pointwise) \<Rightarrow>
                                  Inr (DepthPointwise depth depth_pointwise)
                              | Inr (Depth _) \<Rightarrow> Inl (ValueError ''not enough values to unpack''))
                        else Inr (Depth depth)))))"

subsection \<open>Empirical distribution\<close>

text \<open>A numpy array as its shape and its elements in row-major order.\<close>

record ndarray =
  shape :: "nat list"
  flat :: "real list"

fun index_of :: "real list \<Rightarrow> real \<Rightarrow> nat" where
  "index_of [] x = 0"
| "index_of (y # ys) x = (if y = x then 0 else Suc (index_of ys x))"

text \<open>
  Modelled from the spec: \<open>np.unique(ar, return_inverse=True, return_counts=True)\<close> is a
  library function outside the repository. It returns the sorted distinct values of the
  array, for every element the index of its value among them, and for every distinct
  value the number of times it occurs.
\<close>

definition np_unique :: "real list \<Rightarrow> real list \<times> nat list \<times> nat list" where
  "np_unique ar =
     (let u = remdups_adj (sort ar)
      in (u, map (index_of u) ar, map (count_list ar) u))"

fun cumsum_from :: "nat \<Rightarrow> nat list \<Rightarrow> nat list" where
  "cumsum_from acc [] = []"
| "cumsum_from acc (c # cs) = (acc + c) # cumsum_from (acc + c) cs"

definition cumsum :: "nat list \<Rightarrow> nat list" where
  "cumsum cs = cumsum_from 0 cs"

text \<open>
  \<open>_cumulative_distribution\<close>: \<open>len(column)\<close> is the first entry of the shape, which for
  a one-dimensional array is the number of elements.
\<close>

definition cumulative_distribution :: "ndarray \<Rightarrow> error + ndarray" where
  "cumulative_distribution column =
     (if length (shape column) \<noteq> 1 then Inl (ValueError ''Only supported 1 dimensional arrays.'')
      else case np_unique (flat column) of
        (_, indexes, counts) \<Rightarrow>
          (let count_cumulative = map (\<lambda>c. real c / real (hd (shape column))) (cumsum counts)
           in Inr \<lparr>shape = shape column, flat = map (\<lambda>k. count_cumulative ! k) indexes\<rparr>))"

subsection \<open>Fraiman-Muniz depth\<close>

text \<open>
  Modelled from the spec: \<open>scipy.integrate.simps(y, x)\<close> is a library function outside
  the repository: the composite Simpson rule against the actual coordinate spacing.
  \<open>basic_simps\<close> adds up one Simpson panel for every two consecutive intervals, with the
  weights of the rule for unequal spacings \<open>h0\<close> and \<open>h1\<close>. With an odd number of points
  the panels cover the axis. With an even number, the library's default averages two
  results: Simpson on all but the last interval plus a trapezoid on the last, and a
  trapezoid on the first interval plus Simpson on the rest; the trapezoids read the last
  two and the first two points. The rule is applied to one row; it refuses coordinates
  whose number differs from the row's, and reading the last element of an empty row
  fails. The arithmetic here is exact; the library computes in float64, where the
  product of two spacings can overflow. The equations are therefore only evaluated on
  small concrete grids, and no general bound on an integral is derived from them.
\<close>

fun basic_simps :: "(real \<times> real) list \<Rightarrow> real" where
  "basic_simps ((x0, y0) # (x1, y1) # (x2, y2) # ps) =
     (let h0 = x1 - x0; h1 = x2 - x1;
          hsum = h0 + h1; hprod = h0 * h1; h0divh1 = h0 / h1
      in hsum / 6 * (y0 * (2 - 1 / h0divh1) + y1 * hsum * hsum / hprod + y2 * (2 - h0divh1)))
     + basic_simps ((x2, y2) # ps)"
| "basic_simps ps = 0"

definition trapezoid :: "real \<times> real \<Rightarrow> real \<times> real \<Rightarrow> real" where
  "trapezoid p q = 0.5 * (fst q - fst p) * (snd q + snd p)"

definition simps :: "real list \<Rightarrow> real list \<Rightarrow> error + real" where
  "simps y x =
     (if length x \<noteq> length y
      then Inl (ValueError ''If given, length of x along axis must be the same as y.'')
      else if length y mod 2 = 0
      then (if length y = 0 then Inl IndexError
            else let ps = zip x y
                 in Inr ((basic_simps (butlast ps) + basic_simps (tl ps)) / 2
                         + (trapezoid (last (butlast ps)) (last ps)
                            + trapezoid (ps ! 0) (ps ! 1)) / 2))
      else Inr (basic_simps (zip x y)))"

text \<open>
  \<open>fraiman_muniz_depth\<close>: the pointwise depth is built one grid point at a time from the
  empirical distribution of the column there and then transposed to one row per sample;
  each row is integrated over the first axis and divided by the length of its domain.
\<close>

definition fraiman_muniz_depth :: "fdatagrid \<Rightarrow> bool \<Rightarrow> error + depth_result" where
  "fraiman_muniz_depth fd pointwise =
     (if 1 < ndim_domain fd \<or> 1 < ndim_image fd
      then Inl (ValueError ''Currently multivariate data is not allowed'')
      else case sample_points fd of
        [] \<Rightarrow> Inl IndexError
      | x0 # _ \<Rightarrow>
         (case map_result
                 (\<lambda>i. case cumulative_distribution
                               \<lparr>shape = [nsamples fd], flat = column_at fd i\<rparr> of
                         Inl e \<Rightarrow> Inl e
                       | Inr F \<Rightarrow> Inr (map (\<lambda>f. 1 - \<bar>0.5 - f\<bar>) (flat F)))
                 [0..<length x0] of
            Inl e \<Rightarrow> Inl e
          | Inr cols \<Rightarrow>
             (let pointwise_depth = map (\<lambda>i. map (\<lambda>c. c ! i) cols) [0..<nsamples fd]
              in case domain_range fd of
                [] \<Rightarrow> Inl IndexError
              | (lo, hi) # _ \<Rightarrow>
                 (let interval_len = hi - lo
                  in case map_result (\<lambda>row. simps row x0) pointwise_depth of
                    Inl e \<Rightarrow> Inl e
                  | Inr integral \<Rightarrow>
                     (let depth = map (\<lambda>v. v / interval_len) integral
                      in if pointwise then Inr (DepthPointwise depth pointwise_depth)
                         else Inr (Depth depth))))))"

subsection \<open>The reference grid of the documentation\<close>

definition ref_values :: "real list list" where
  "ref_values =
     [[1, 1, 2, 3, 2.5, 2],
      [0.5, 0.5, 1, 2, 1.5, 1],
      [-1, -1, -0.5, 1, 1, 0.5],
      [-0.5, -0.5, -0.5, -1, -1, -1]]"

text \<open>
  A grid of curves with scalar values over one axis, as the constructor builds it from a
  value matrix and the coordinates: the domain range is the span of the coordinates.
\<close>

definition curve_grid :: "real list list \<Rightarrow> real list \<Rightarrow> fdatagrid" where
  "curve_grid vals pts =
     \<lparr>data_matrix = map (map (\<lambda>v. [v])) vals,
      sample_points = [pts],
      domain_range = [(hd pts, last pts)],
      ndim_image = 1\<rparr>"

definition ref_grid :: fdatagrid where
  "ref_grid = curve_grid ref_values [0, 2, 4, 6, 8, 10]"

subsection \<open>Closed forms used in the proofs\<close>

text \<open>
  The number of entries of a column that are at most a given value, the scalar value of
  a sample at a grid point, and the rank and depth expressions in terms of them.
\<close>

definition count_le :: "real list \<Rightarrow> real \<Rightarrow> nat" where
  "count_le xs v = length (filter (\<lambda>u. u \<le> v) xs)"

definition value_at :: "fdatagrid \<Rightarrow> nat \<Rightarrow> nat \<Rightarrow> real" where
  "value_at fd i t = data_matrix fd ! i ! t ! 0"

definition rank_at :: "fdatagrid \<Rightarrow> nat \<Rightarrow> nat \<Rightarrow> real" where
  "rank_at fd i t = real (count_le (column_at fd t) (value_at fd i t))"

definition rank_row :: "fdatagrid \<Rightarrow> nat \<Rightarrow> real list" where
  "rank_row fd i = map (rank_at fd i) [0..<npoints fd]"

definition bd_of_row :: "real \<Rightarrow> real list \<Rightarrow> real" where
  "bd_of_row n row = ((Min (set row) - 1) * (n - Max (set row)) + n - 1) / (n * (n - 1) / 2)"

definition mbd_of_row :: "real \<Rightarrow> real list \<Rightarrow> real" where
  "mbd_of_row n row =
     (sum_list (map (\<lambda>r. (n - r) * (r - 1)) row) / real (length row) + n - 1) / (n * (n - 1) / 2)"

definition mbd_point :: "real \<Rightarrow> real \<Rightarrow> real" where
  "mbd_point n r = ((n - r) * (r - 1) + n - 1) / (n * (n - 1) / 2)"

text \<open>A row of ranks: every entry is a whole number between 1 and \<open>n\<close>.\<close>

definition ranks_in :: "nat \<Rightarrow> real list \<Rightarrow> bool" where
  "ranks_in n row \<longleftrightarrow> list_all (\<lambda>r. \<exists>k. r = real k \<and> 1 \<le> k \<and> k \<le> n) row"

text \<open>Two arrays agree entry by entry up to the fourth decimal.\<close>

definition within_tol :: "real list \<Rightarrow> real list \<Rightarrow> bool" where
  "within_tol xs ys \<longleftrightarrow> list_all2 (\<lambda>a b. \<bar>a - b\<bar> \<le> 1 / 10000) xs ys"

text \<open>
  The depths as the docstrings of \<open>band_depth\<close> and \<open>modified_band_depth\<close> define
  them. A band is determined by two sample curves; it contains sample \<open>i\<close> at a grid
  point when the value of \<open>i\<close> lies between the values of the two curves there.
  \<open>band_depth_doc\<close> is the fraction of the bands that contain the whole graph of the
  sample, \<open>modified_band_depth_doc\<close> the fraction of the grid points at which the graph
  is inside a band, averaged over the bands.
\<close>

definition in_band :: "fdatagrid \<Rightarrow> nat \<Rightarrow> nat \<Rightarrow> nat \<Rightarrow> nat \<Rightarrow> bool" where
  "in_band fd i j k t \<longleftrightarrow>
     min (value_at fd j t) (value_at fd k t) \<le> value_at fd i t \<and>
     value_at fd i t \<le> max (value_at fd j t) (value_at fd k t)"

definition sample_pairs :: "nat \<Rightarrow> (nat \<times> nat) list" where
  "sample_pairs n = concat (map (\<lambda>j. map (\<lambda>k. (j, k)) [Suc j..<n]) [0..<n])"

definition band_depth_doc :: "fdatagrid \<Rightarrow> real list" where
  "band_depth_doc fd =
     map (\<lambda>i. real (length (filter (\<lambda>(j, k). list_all (in_band fd i j k) [0..<npoints fd])
                                (sample_pairs (nsamples fd))))
               / real (length (sample_pairs (nsamples fd))))
       [0..<nsamples fd]"

definition modified_band_depth_doc :: "fdatagrid \<Rightarrow> real list" where
  "modified_band_depth_doc fd =
     map (\<lambda>i. sum_list (map (\<lambda>(j, k). real (length (filter (in_band fd i j k) [0..<npoints fd]))
                                        / real (npoints fd))
                          (sample_pairs (nsamples fd)))
               / real (length (sample_pairs (nsamples fd))))
       [0..<nsamples fd]"

text \<open>Three identical curves over two grid points.\<close>

definition identical_grid :: fdatagrid where
  "identical_grid = curve_grid [[1, 2], [1, 2], [1, 2]] [0, 1]"

text \<open>
  The transposition of the first two sample indices, and the reference values with the
  first two samples exchanged.
\<close>

definition swap01 :: "nat \<Rightarrow> nat" where
  "swap01 i = (if i = 0 then 1 else if i = 1 then 0 else i)"

definition ref_swapped :: "real list list list" where
  "ref_swapped = [data_matrix ref_grid ! 1, data_matrix ref_grid ! 0,
                  data_matrix ref_grid ! 2, data_matrix ref_grid ! 3]"

text \<open>
  The pointwise Fraiman-Muniz depth in terms of the rank, the value of the quadrature on
  a row whose length matches the coordinates, and the resulting depth array.
\<close>

definition fm_at :: "fdatagrid \<Rightarrow> nat \<Rightarrow> nat \<Rightarrow> real" where
  "fm_at fd i t = 1 - \<bar>0.5 - rank_at fd i t / real (nsamples fd)\<bar>"

definition fm_row :: "fdatagrid \<Rightarrow> nat \<Rightarrow> real list" where
  "fm_row fd i = map (fm_at fd i) [0..<npoints fd]"

definition simps_val :: "real list \<Rightarrow> real list \<Rightarrow> real" where
  "simps_val y x =
     (let ps = zip x y
      in if length y mod 2 = 0
         then (basic_simps (butlast ps) + basic_simps (tl ps)) / 2
              + (trapezoid (last (butlast ps)) (last ps) + trapezoid (ps ! 0) (ps ! 1)) / 2
         else basic_simps ps)"

definition fm_depths :: "fdatagrid \<Rightarrow> real list" where
  "fm_depths fd =
     map (\<lambda>i. simps_val (fm_row fd i) (hd (sample_points fd))
               / (snd (hd (domain_range fd)) - fst (hd (domain_range fd))))
       [0..<nsamples fd]"

text \<open>The result is the ValueError that reports an unsupported dimension.\<close>

definition invalid_dimension :: "error + 'a \<Rightarrow> bool" where
  "invalid_dimension r = (case r of Inl (ValueError _) \<Rightarrow> True | _ \<Rightarrow> False)"

text \<open>Two samples with two-dimensional values at a single grid point.\<close>

definition mv_grid :: fdatagrid where
  "mv_grid = \<lparr>data_matrix = [[[1, 2]], [[3, 4]]], sample_points = [[0]],
              domain_range = [(0, 0)], ndim_image = 2\<rparr>"

text \<open>Membership in a closed interval, and the pointwise array of a result.\<close>

definition in_range :: "real \<Rightarrow> real \<Rightarrow> real \<Rightarrow> bool" where
  "in_range lo hi v \<longleftrightarrow> lo \<le> v \<and> v \<le> hi"

fun pointwise_of :: "depth_result \<Rightarrow> real list list" where
  "pointwise_of (Depth d) = []"
| "pointwise_of (DepthPointwise d dp) = dp"

text \<open>Two curves over the unequally spaced points 0, 1, 4.\<close>

definition nonuniform_grid :: fdatagrid where
  "nonuniform_grid = curve_grid [[1, 0, 0], [0, 1, 1]] [0, 1, 4]"

section \<open>Ranking and the empirical distribution\<close>

lemma last_pos_notin: "v \<notin> set s \<Longrightarrow> last_pos v s = 0"
  by (induction s) (auto simp: Let_def)

lemma last_pos_sorted:
  "sorted s \<Longrightarrow> v \<in> set s \<Longrightarrow> last_pos v s = length (filter (\<lambda>u. u \<le> v) s)"
proof (induction s)
  case Nil
  then show ?case by simp
next
  case (Cons u us)
  show ?case
  proof (cases "v \<in> set us")
    case True
    with Cons have ih: "last_pos v us = length (filter (\<lambda>u. u \<le> v) us)" by simp
    from True have "filter (\<lambda>u. u \<le> v) us \<noteq> []"
      by (auto simp: filter_empty_conv)
    then have pos: "0 < last_pos v us" using ih by simp
    from True Cons.prems have "u \<le> v" by auto
    with pos ih show ?thesis by (simp add: Let_def)
  next
    case False
    with Cons.prems have uv: "u = v" by auto
    from False have z: "last_pos v us = 0" by (rule last_pos_notin)
    have "\<forall>w\<in>set us. \<not> w \<le> v"
      using Cons.prems False uv by (auto simp: order.order_iff_strict)
    then have "filter (\<lambda>u. u \<le> v) us = []" by (simp add: filter_empty_conv)
    with z uv show ?thesis by (simp add: Let_def)
  qed
qed

lemma length_filter_sort:
  "length (filter P (sort xs)) = length (filter P (xs::real list))"
proof -
  have "mset (filter P (sort xs)) = mset (filter P xs)" by simp
  then show ?thesis by (metis size_mset)
qed

lemma rankdata_max_nth:
  assumes "i < length a"
  shows "rankdata_max a ! i = real (count_le a (a ! i))"
proof -
  have "a ! i \<in> set (sort a)" using assms by simp
  then have "last_pos (a ! i) (sort a) = length (filter (\<lambda>u. u \<le> a ! i) (sort a))"
    by (intro last_pos_sorted) simp_all
  then show ?thesis using assms
    by (simp add: rankdata_max_def count_le_def length_filter_sort)
qed

lemma length_rankdata_max: "length (rankdata_max a) = length a"
  by (simp add: rankdata_max_def)

lemma count_le_bounds:
  assumes "v \<in> set xs"
  shows "1 \<le> count_le xs v" and "count_le xs v \<le> length xs"
proof -
  from assms have "filter (\<lambda>u. u \<le> v) xs \<noteq> []" by (auto simp: filter_empty_conv)
  then show "1 \<le> count_le xs v" by (cases "filter (\<lambda>u. u \<le> v) xs") (auto simp: count_le_def)
  show "count_le xs v \<le> length xs" by (simp add: count_le_def)
qed

lemma count_list_filter_mem:
  "v \<in> V \<Longrightarrow> count_list (filter (\<lambda>y. y \<in> V) xs) v = count_list xs v"
  by (induction xs) auto

lemma sum_counts_distinct:
  assumes "distinct vs"
  shows "sum_list (map (count_list xs) vs) = length (filter (\<lambda>y. y \<in> set vs) xs)"
proof -
  have "sum_list (map (count_list xs) vs) = sum (count_list xs) (set vs)"
    using assms by (rule sum_list_distinct_conv_sum_set)
  also have "\<dots> = sum (count_list (filter (\<lambda>y. y \<in> set vs) xs)) (set vs)"
    by (intro sum.cong) (simp_all add: count_list_filter_mem)
  also have "\<dots> = length (filter (\<lambda>y. y \<in> set vs) xs)"
    by (intro sum_count_set) auto
  finally show ?thesis .
qed

lemma cumsum_from_nth:
  "k < length cs \<Longrightarrow> cumsum_from a cs ! k = a + sum_list (take (Suc k) cs)"
proof (induction cs arbitrary: a k)
  case Nil
  then show ?case by simp
next
  case (Cons c cs)
  then show ?case by (cases k) simp_all
qed

lemma length_cumsum_from: "length (cumsum_from a cs) = length cs"
  by (induction cs arbitrary: a) simp_all

lemma index_of_nth: "x \<in> set u \<Longrightarrow> index_of u x < length u \<and> u ! index_of u x = x"
  by (induction u) auto

lemma take_sorted_le:
  assumes "sorted u" "distinct u" "k < length u" "y \<in> set u"
  shows "y \<in> set (take (Suc k) u) \<longleftrightarrow> y \<le> u ! k"
proof
  assume "y \<in> set (take (Suc k) u)"
  then obtain j where "j < Suc k" "j < length u" "y = u ! j"
    by (auto simp: in_set_conv_nth)
  then show "y \<le> u ! k" using assms by (auto intro: sorted_nth_mono)
next
  assume le: "y \<le> u ! k"
  from assms obtain j where j: "j < length u" "y = u ! j" by (auto simp: in_set_conv_nth)
  have "j \<le> k"
  proof (rule ccontr)
    assume "\<not> j \<le> k"
    then have kj: "k < j" by simp
    then have "u ! k \<le> u ! j" using assms j by (auto intro: sorted_nth_mono)
    moreover have "u ! k \<noteq> u ! j" using assms j kj by (auto simp: nth_eq_iff_index_eq)
    ultimately show False using le j by simp
  qed
  then show "y \<in> set (take (Suc k) u)" using j by (auto simp: in_set_conv_nth)
qed

lemma distinct_remdups_adj_sorted:
  "sorted xs \<Longrightarrow> distinct (remdups_adj (xs::real list))"
proof (induction xs rule: remdups_adj.induct)
  case 1
  then show ?case by simp
next
  case (2 x)
  then show ?case by simp
next
  case (3 x y xs)
  then show ?case by (cases "x = y") auto
qed

lemma unique_cumulative:
  assumes "x \<in> set xs"
  defines "u \<equiv> remdups_adj (sort xs)"
  shows "cumsum (map (count_list xs) u) ! index_of u x = count_le xs x"
proof -
  have su: "sorted u" and du: "distinct u" and eq: "set u = set xs"
    by (simp_all add: u_def distinct_remdups_adj_sorted)
  let ?k = "index_of u x"
  have k: "?k < length u" "u ! ?k = x" using index_of_nth [of x u] assms(1) eq by auto
  have "cumsum (map (count_list xs) u) ! ?k = sum_list (map (count_list xs) (take (Suc ?k) u))"
    using k by (simp add: cumsum_def cumsum_from_nth take_map)
  also have "\<dots> = length (filter (\<lambda>y. y \<in> set (take (Suc ?k) u)) xs)"
    using du by (intro sum_counts_distinct) simp
  also have "\<dots> = length (filter (\<lambda>y. y \<le> x) xs)"
  proof -
    have "filter (\<lambda>y. y \<in> set (take (Suc ?k) u)) xs = filter (\<lambda>y. y \<le> x) xs"
      using take_sorted_le [OF su du k(1)] k(2) eq by (intro filter_cong) auto
    then show ?thesis by simp
  qed
  finally show ?thesis by (simp add: count_le_def)
qed

lemma cumulative_distribution_1d:
  "cumulative_distribution \<lparr>shape = [n], flat = xs\<rparr> =
     Inr \<lparr>shape = [n], flat = map (\<lambda>x. real (count_le xs x) / real n) xs\<rparr>"
proof -
  let ?u = "remdups_adj (sort xs)"
  have len: "\<And>x. x \<in> set xs \<Longrightarrow> index_of ?u x < length ?u"
    using index_of_nth [of _ ?u] by simp
  have "map (\<lambda>k. map (\<lambda>c. real c / real n) (cumsum (map (count_list xs) ?u)) ! k) (map (index_of ?u) xs)
        = map (\<lambda>x. real (count_le xs x) / real n) xs"
    using len by (auto simp: cumsum_def length_cumsum_from unique_cumulative [unfolded cumsum_def])
  then show ?thesis
    by (simp add: cumulative_distribution_def np_unique_def Let_def)
qed

lemma grid_ok_data_matrix:
  assumes "grid_ok fd"
  obtains s0 rest where "data_matrix fd = s0 # rest" "length s0 = npoints fd"
proof -
  from assms have "data_matrix fd \<noteq> []" by (auto simp: grid_ok_def nsamples_def)
  then obtain s0 rest where eq: "data_matrix fd = s0 # rest" by (cases "data_matrix fd") auto
  with assms have "length s0 = npoints fd" by (simp add: grid_ok_def)
  with eq show ?thesis by (rule that)
qed

lemma column_at_nth:
  "i < nsamples fd \<Longrightarrow> column_at fd t ! i = value_at fd i t"
  by (simp add: column_at_def value_at_def nsamples_def)

lemma length_column_at: "length (column_at fd t) = nsamples fd"
  by (simp add: column_at_def nsamples_def)

lemma rank_samples_ok:
  assumes "grid_ok fd" "\<not> 1 < ndim_image fd"
  shows "rank_samples fd = Inr (map (rank_row fd) [0..<nsamples fd])"
proof -
  from assms(1) obtain s0 rest where dm: "data_matrix fd = s0 # rest" "length s0 = npoints fd"
    by (rule grid_ok_data_matrix)
  have "map (\<lambda>i. map (\<lambda>c. c ! i) (map (\<lambda>t. rankdata_max (column_at fd t)) [0..<npoints fd]))
          [0..<nsamples fd] = map (rank_row fd) [0..<nsamples fd]"
    by (simp add: rank_row_def rank_at_def rankdata_max_nth length_column_at column_at_nth)
  with dm assms(2) show ?thesis by (simp add: rank_samples_def)
qed

lemma map_result_Inr:
  "(\<And>x. x \<in> set xs \<Longrightarrow> f x = Inr (g x)) \<Longrightarrow> map_result f xs = Inr (map g xs)"
  by (induction xs) simp_all

lemma amax_Max: "row \<noteq> [] \<Longrightarrow> amax row = Inr (Max (set row))"
proof (cases row)
  case Nil
  assume "row \<noteq> []"
  with Nil show ?thesis by simp
next
  case (Cons r rs)
  then show ?thesis using Max.set_eq_fold [of r rs] by (simp add: amax_def)
qed

lemma amin_Min: "row \<noteq> [] \<Longrightarrow> amin row = Inr (Min (set row))"
proof (cases row)
  case Nil
  assume "row \<noteq> []"
  with Nil show ?thesis by simp
next
  case (Cons r rs)
  then show ?thesis using Min.set_eq_fold [of r rs] by (simp add: amin_def)
qed

lemma foldl_npoints: "foldl (\<lambda>x y. x * length y) a axes = a * prod_list (map length axes)"
  by (induction axes arbitrary: a) simp_all

lemma prod_list_pos: "(\<And>x. x \<in> set xs \<Longrightarrow> 0 < x) \<Longrightarrow> 0 < prod_list (xs::nat list)"
  by (induction xs) simp_all

lemma grid_ok_npoints: "grid_ok fd \<Longrightarrow> 0 < npoints fd"
  unfolding npoints_def by (rule prod_list_pos) (auto simp: grid_ok_def list_all_iff)

lemma rank_row_nonempty: "grid_ok fd \<Longrightarrow> rank_row fd i \<noteq> []"
  using grid_ok_npoints [of fd] by (simp add: rank_row_def)

lemma length_rank_row: "length (rank_row fd i) = npoints fd"
  by (simp add: rank_row_def)

lemma modified_band_depth_ok:
  assumes "grid_ok fd" "\<not> 1 < ndim_image fd"
  shows "modified_band_depth fd pointwise =
     Inr (if pointwise
          then DepthPointwise (map (\<lambda>i. mbd_of_row (real (nsamples fd)) (rank_row fd i)) [0..<nsamples fd])
                 (map (\<lambda>i. map (mbd_point (real (nsamples fd))) (rank_row fd i)) [0..<nsamples fd])
          else Depth (map (\<lambda>i. mbd_of_row (real (nsamples fd)) (rank_row fd i)) [0..<nsamples fd]))"
  by (simp add: modified_band_depth_def rank_samples_ok [OF assms] Let_def foldl_npoints
      mbd_of_row_def mbd_point_def length_rank_row npoints_def o_def)

lemma band_depth_ok:
  assumes "grid_ok fd" "\<not> 1 < ndim_image fd"
  shows "band_depth fd pointwise =
     Inr (if pointwise
          then DepthPointwise (map (\<lambda>i. bd_of_row (real (nsamples fd)) (rank_row fd i)) [0..<nsamples fd])
                 (map (\<lambda>i. map (mbd_point (real (nsamples fd))) (rank_row fd i)) [0..<nsamples fd])
          else Depth (map (\<lambda>i. bd_of_row (real (nsamples fd)) (rank_row fd i)) [0..<nsamples fd]))"
proof -
  have mx: "map_result amax (map (rank_row fd) [0..<nsamples fd])
      = Inr (map (\<lambda>row. Max (set row)) (map (rank_row fd) [0..<nsamples fd]))"
    using rank_row_nonempty [OF assms(1)] by (intro map_result_Inr) (auto simp: amax_Max)
  have mn: "map_result amin (map (rank_row fd) [0..<nsamples fd])
      = Inr (map (\<lambda>row. Min (set row)) (map (rank_row fd) [0..<nsamples fd]))"
    using rank_row_nonempty [OF assms(1)] by (intro map_result_Inr) (auto simp: amin_Min)
  show ?thesis
    by (simp add: band_depth_def rank_samples_ok [OF assms] mx mn Let_def
        modified_band_depth_ok [OF assms] bd_of_row_def zip_map_map zip_same_conv_map o_def)
qed

lemma nat_square_ge: "(p::nat) \<le> p * p"
  by (cases p) simp_all

lemma ratio_bounds:
  fixes x c :: real
  assumes "0 \<le> x" "x \<le> c" "0 < c"
  shows "0 \<le> x / c" and "x / c \<le> 1"
  using assms by simp_all

lemma band_arith_aux:
  fixes S X Y Z :: nat
  shows "S \<le> X \<Longrightarrow> 2 * (Y + S) \<le> X + 2 * Y + Z + S"
  by simp

lemma band_arith_nat:
  fixes p q m :: nat
  shows "2 * (p * q + p + m + q) \<le> (p + m + q + 1) * (p + m + q)"
proof -
  have "p \<le> p * p" "q \<le> q * q" "m \<le> m * m" by (rule nat_square_ge)+
  then have "p + q + m \<le> p * p + q * q + m * m" by (intro add_mono)
  then have "2 * (p * q + (p + q + m))
      \<le> (p * p + q * q + m * m) + 2 * (p * q) + (2 * (p * m) + 2 * (m * q)) + (p + q + m)"
    by (rule band_arith_aux)
  also have "\<dots> = (p + m + q + 1) * (p + m + q)" by (simp add: algebra_simps)
  finally show ?thesis by (simp add: add.assoc add.left_commute add.commute)
qed

lemma band_arith:
  fixes a b n :: nat
  assumes "1 \<le> a" "a \<le> b" "b \<le> n"
  shows "0 \<le> (real a - 1) * (real n - real b)"
    and "(real a - 1) * (real n - real b) + real n - 1 \<le> real n * (real n - 1) / 2"
proof -
  define p where "p = a - 1"
  define m where "m = b - a"
  define q where "q = n - b"
  have a: "real a = real p + 1" using assms by (simp add: p_def)
  have b: "real b = real p + 1 + real m" using assms by (simp add: p_def m_def)
  have n: "real n = real p + 1 + real m + real q" using assms by (simp add: p_def m_def q_def)
  show "0 \<le> (real a - 1) * (real n - real b)" by (simp add: a b n)
  have "real (2 * (p * q + p + m + q)) \<le> real ((p + m + q + 1) * (p + m + q))"
    using band_arith_nat [of p q m] by (rule iffD2 [OF of_nat_le_iff])
  then show "(real a - 1) * (real n - real b) + real n - 1 \<le> real n * (real n - 1) / 2"
    by (simp add: a b n algebra_simps)
qed

lemma sum_list_bounds:
  fixes xs :: "real list"
  assumes "\<forall>x\<in>set xs. a \<le> x \<and> x \<le> b"
  shows "a * real (length xs) \<le> sum_list xs \<and> sum_list xs \<le> b * real (length xs)"
  using assms
proof (induction xs)
  case Nil
  then show ?case by simp
next
  case (Cons x xs)
  then have "a \<le> x \<and> x \<le> b" and "a * real (length xs) \<le> sum_list xs \<and> sum_list xs \<le> b * real (length xs)"
    by simp_all
  then show ?case by (simp add: algebra_simps)
qed

lemma rank_at_nat:
  assumes "i < nsamples fd"
  shows "\<exists>k. rank_at fd i t = real k \<and> 1 \<le> k \<and> k \<le> nsamples fd"
proof -
  have "value_at fd i t \<in> set (column_at fd t)"
    using assms column_at_nth [of i fd t] length_column_at [of fd t]
    by (metis nth_mem)
  from count_le_bounds [OF this] show ?thesis
    by (auto simp: rank_at_def length_column_at)
qed

lemma ranks_in_rank_row: "i < nsamples fd \<Longrightarrow> ranks_in (nsamples fd) (rank_row fd i)"
  using rank_at_nat [of i fd] by (simp add: ranks_in_def rank_row_def list_all_iff)

lemma bd_of_row_bounds:
  assumes "ranks_in n row" "row \<noteq> []" "2 \<le> n"
  shows "0 \<le> bd_of_row (real n) row" and "bd_of_row (real n) row \<le> 1"
proof -
  have "Min (set row) \<in> set row" "Max (set row) \<in> set row" using assms(2) by simp_all
  moreover from assms(1) have "\<forall>r\<in>set row. \<exists>k. r = real k \<and> 1 \<le> k \<and> k \<le> n"
    by (simp add: ranks_in_def list_all_iff)
  ultimately obtain a b where ab: "Min (set row) = real a" "1 \<le> a" "a \<le> n"
     "Max (set row) = real b" "1 \<le> b" "b \<le> n"
    by blast
  have "Min (set row) \<le> Max (set row)" using assms(2) by simp
  then have le: "a \<le> b" using ab by simp
  have c: "0 < real n * (real n - 1) / 2" using assms(3) by simp
  from band_arith [OF ab(2) le ab(6)]
  have "0 \<le> (real a - 1) * (real n - real b) + real n - 1"
    and "(real a - 1) * (real n - real b) + real n - 1 \<le> real n * (real n - 1) / 2"
    using assms(3) by simp_all
  then show "0 \<le> bd_of_row (real n) row" and "bd_of_row (real n) row \<le> 1"
    using c unfolding bd_of_row_def ab by simp_all
qed

lemma mbd_point_bounds:
  assumes "r = real k" "1 \<le> k" "k \<le> n" "2 \<le> n"
  shows "0 \<le> mbd_point (real n) r" and "mbd_point (real n) r \<le> 1"
proof -
  have c: "0 < real n * (real n - 1) / 2" using assms(4) by simp
  have t0: "0 \<le> (real n - r) * (r - 1)"
    using band_arith(1) [of k k n] assms by (simp add: mult.commute)
  have t1: "(real n - r) * (r - 1) + real n - 1 \<le> real n * (real n - 1) / 2"
    using band_arith(2) [of k k n] assms by (simp add: mult.commute)
  have "0 \<le> (real n - r) * (r - 1) + real n - 1" using t0 assms(4) by simp
  with t1 have "0 \<le> (real n - r) * (r - 1) + real n - 1"
    and "(real n - r) * (r - 1) + real n - 1 \<le> real n * (real n - 1) / 2" by simp_all
  then show "0 \<le> mbd_point (real n) r" and "mbd_point (real n) r \<le> 1"
    using c unfolding mbd_point_def by simp_all
qed

lemma mbd_of_row_bounds:
  assumes "ranks_in n row" "row \<noteq> []" "2 \<le> n"
  shows "0 \<le> mbd_of_row (real n) row" and "mbd_of_row (real n) row \<le> 1"
proof -
  let ?c = "real n * (real n - 1) / 2"
  let ?ms = "map (\<lambda>r. (real n - r) * (r - 1)) row"
  have c: "0 < ?c" using assms(3) by simp
  have len: "0 < real (length row)" using assms(2) by simp
  have "\<forall>x\<in>set ?ms. 0 \<le> x \<and> x \<le> ?c - (real n - 1)"
  proof
    fix x assume "x \<in> set ?ms"
    then obtain r where r: "r \<in> set row" "x = (real n - r) * (r - 1)" by auto
    with assms(1) obtain k where k: "r = real k" "1 \<le> k" "k \<le> n"
      by (auto simp: ranks_in_def list_all_iff)
    have "0 \<le> x" using band_arith(1) [of k k n] k r by (simp add: mult.commute)
    moreover have "x \<le> ?c - (real n - 1)"
      using band_arith(2) [of k k n] k r by (simp add: mult.commute)
    ultimately show "0 \<le> x \<and> x \<le> ?c - (real n - 1)" by simp
  qed
  from sum_list_bounds [OF this]
  have s: "0 \<le> sum_list ?ms" "sum_list ?ms \<le> (?c - (real n - 1)) * real (length row)"
    by simp_all
  define mean where "mean = sum_list ?ms / real (length row)"
  define c where "c = ?c"
  have m0: "0 \<le> mean" using s(1) by (simp add: mean_def)
  have m1: "mean \<le> c - (real n - 1)"
    using s(2) len unfolding mean_def c_def by (simp only: pos_divide_le_eq)
  have "0 \<le> mean + real n - 1" using m0 assms(3) by simp
  moreover have "mean + real n - 1 \<le> c" using m1 by linarith
  ultimately have b: "0 \<le> sum_list ?ms / real (length row) + real n - 1"
    "sum_list ?ms / real (length row) + real n - 1 \<le> ?c"
    unfolding mean_def c_def by blast+
  show "0 \<le> mbd_of_row (real n) row" and "mbd_of_row (real n) row \<le> 1"
    unfolding mbd_of_row_def by (rule ratio_bounds [OF b c])+
qed

lemma count_le_card:
  "count_le (column_at fd t) v = card {j. j < nsamples fd \<and> value_at fd j t \<le> v}"
proof -
  have "{j. j < length (column_at fd t) \<and> column_at fd t ! j \<le> v}
      = {j. j < nsamples fd \<and> value_at fd j t \<le> v}"
    by (auto simp: length_column_at column_at_nth)
  then show ?thesis by (simp add: count_le_def length_filter_conv_card)
qed

lemma rank_at_card:
  "rank_at fd i t = real (card {j. j < nsamples fd \<and> value_at fd j t \<le> value_at fd i t})"
  by (simp add: rank_at_def count_le_card)

lemma rank_at_top:
  assumes "\<forall>j<nsamples fd. value_at fd j t \<le> value_at fd i t"
  shows "rank_at fd i t = real (nsamples fd)"
proof -
  have "{j. j < nsamples fd \<and> value_at fd j t \<le> value_at fd i t} = {..<nsamples fd}"
    using assms by auto
  then show ?thesis by (simp add: rank_at_card)
qed

lemma grid_ok_ref_grid: "grid_ok ref_grid"
  by (simp add: grid_ok_def ref_grid_def curve_grid_def ref_values_def nsamples_def
      ndim_domain_def npoints_def)

section \<open>The documented examples\<close>

text \<open>
  C1: on the reference grid of four curves over the points 0, 2, 4, 6, 8, 10, band depth
  is [1/2, 5/6, 1/2, 1/2], modified band depth is [1/2, 5/6, 13/18, 2/3] and Fraiman-Muniz
  depth is [1/2, 3/4, 37/40, 7/8], in that sample order; these agree with the documented
  decimals [0.5, 0.8333, 0.5, 0.5], [0.5, 0.8333, 0.7222, 0.6667] and
  [0.5, 0.75, 0.925, 0.875] up to the fourth decimal.
\<close>

theorem reference_grid_depths:
  "band_depth ref_grid False = Inr (Depth [1 / 2, 5 / 6, 1 / 2, 1 / 2]) \<and>
   within_tol [1 / 2, 5 / 6, 1 / 2, 1 / 2] [0.5, 0.8333, 0.5, 0.5] \<and>
   modified_band_depth ref_grid False = Inr (Depth [1 / 2, 5 / 6, 13 / 18, 2 / 3]) \<and>
   within_tol [1 / 2, 5 / 6, 13 / 18, 2 / 3] [0.5, 0.8333, 0.7222, 0.6667] \<and>
   fraiman_muniz_depth ref_grid False = Inr (Depth [1 / 2, 3 / 4, 37 / 40, 7 / 8]) \<and>
   within_tol [1 / 2, 3 / 4, 37 / 40, 7 / 8] [0.5, 0.75, 0.925, 0.875]"
proof -
  have "band_depth ref_grid False = Inr (Depth [1 / 2, 5 / 6, 1 / 2, 1 / 2])"
    by code_simp
  moreover have "modified_band_depth ref_grid False = Inr (Depth [1 / 2, 5 / 6, 13 / 18, 2 / 3])"
    by code_simp
  moreover have "fraiman_muniz_depth ref_grid False = Inr (Depth [1 / 2, 3 / 4, 37 / 40, 7 / 8])"
    by code_simp
  moreover have "within_tol [1 / 2, 5 / 6, 1 / 2, 1 / 2] [0.5, 0.8333, 0.5, 0.5]"
    by (simp add: within_tol_def)
  moreover have "within_tol [1 / 2, 5 / 6, 13 / 18, 2 / 3] [0.5, 0.8333, 0.7222, 0.6667]"
    by (simp add: within_tol_def)
  moreover have "within_tol [1 / 2, 3 / 4, 37 / 40, 7 / 8] [0.5, 0.75, 0.925, 0.875]"
    by (simp add: within_tol_def)
  ultimately show ?thesis by blast
qed

section \<open>The rank engine\<close>

text \<open>
  C3: on a grid with scalar values, \<open>_rank_samples\<close> returns one rank per sample and
  grid point; the rank of sample \<open>i\<close> at point \<open>t\<close> is the number of samples whose
  value at \<open>t\<close> is at most the value of \<open>i\<close> there, an integer between 1 and the
  number of samples, and a sample whose value is the largest at \<open>t\<close>, tied or not, has
  rank \<open>nsamples\<close>.
\<close>

theorem rank_samples_competition_max:
  assumes "grid_ok fd" and "ndim_image fd = 1"
  shows "\<exists>ranks. rank_samples fd = Inr ranks \<and> length ranks = nsamples fd \<and>
     (\<forall>i<nsamples fd. length (ranks ! i) = npoints fd \<and>
        (\<forall>t<npoints fd.
           ranks ! i ! t
             = real (card {j. j < nsamples fd \<and> value_at fd j t \<le> value_at fd i t}) \<and>
           1 \<le> ranks ! i ! t \<and> ranks ! i ! t \<le> real (nsamples fd) \<and>
           ((\<forall>j<nsamples fd. value_at fd j t \<le> value_at fd i t)
              \<longrightarrow> ranks ! i ! t = real (nsamples fd))))"
proof -
  let ?ranks = "map (rank_row fd) [0..<nsamples fd]"
  have r: "rank_samples fd = Inr ?ranks" using assms by (intro rank_samples_ok) simp_all
  have "\<forall>i<nsamples fd. length (?ranks ! i) = npoints fd \<and>
        (\<forall>t<npoints fd.
           ?ranks ! i ! t
             = real (card {j. j < nsamples fd \<and> value_at fd j t \<le> value_at fd i t}) \<and>
           1 \<le> ?ranks ! i ! t \<and> ?ranks ! i ! t \<le> real (nsamples fd) \<and>
           ((\<forall>j<nsamples fd. value_at fd j t \<le> value_at fd i t)
              \<longrightarrow> ?ranks ! i ! t = real (nsamples fd)))"
  proof (intro allI impI conjI)
    fix i assume i: "i < nsamples fd"
    show "length (?ranks ! i) = npoints fd" using i by (simp add: length_rank_row)
    fix t assume t: "t < npoints fd"
    have e: "?ranks ! i ! t = rank_at fd i t" using i t by (simp add: rank_row_def)
    show "?ranks ! i ! t
        = real (card {j. j < nsamples fd \<and> value_at fd j t \<le> value_at fd i t})"
      unfolding e by (rule rank_at_card)
    from rank_at_nat [OF i, of t] obtain k where
      "rank_at fd i t = real k" "1 \<le> k" "k \<le> nsamples fd" by blast
    then show "1 \<le> ?ranks ! i ! t" and "?ranks ! i ! t \<le> real (nsamples fd)"
      unfolding e by simp_all
    assume "\<forall>j<nsamples fd. value_at fd j t \<le> value_at fd i t"
    then show "?ranks ! i ! t = real (nsamples fd)" unfolding e by (rule rank_at_top)
  qed
  moreover have "length ?ranks = nsamples fd" by simp
  ultimately show ?thesis using r by blast
qed

theorem rank_samples_competition_max_witness:
  "grid_ok ref_grid \<and> ndim_image ref_grid = 1 \<and>
   (\<exists>ranks. rank_samples ref_grid = Inr ranks \<and> length ranks = nsamples ref_grid \<and>
     (\<forall>i<nsamples ref_grid. length (ranks ! i) = npoints ref_grid \<and>
        (\<forall>t<npoints ref_grid.
           ranks ! i ! t
             = real (card {j. j < nsamples ref_grid \<and> value_at ref_grid j t \<le> value_at ref_grid i t}) \<and>
           1 \<le> ranks ! i ! t \<and> ranks ! i ! t \<le> real (nsamples ref_grid) \<and>
           ((\<forall>j<nsamples ref_grid. value_at ref_grid j t \<le> value_at ref_grid i t)
              \<longrightarrow> ranks ! i ! t = real (nsamples ref_grid)))))"
proof -
  have h1: "grid_ok ref_grid" by (rule grid_ok_ref_grid)
  have h2: "ndim_image ref_grid = 1" by (simp add: ref_grid_def curve_grid_def)
  show ?thesis using h1 h2 rank_samples_competition_max [OF h1 h2] by blast
qed

section \<open>The empirical distribution\<close>

text \<open>
  C4: for a one-dimensional array, \<open>_cumulative_distribution\<close> returns for every entry
  the proportion of the entries that are at most its value, so equal entries receive the
  same proportion; on [1,4,5,1,2,2,4,1,1,3] the result is
  [0.4,0.9,1.0,0.4,0.6,0.6,0.9,0.4,0.4,0.7].
\<close>

theorem cumulative_distribution_proportion:
  "cumulative_distribution \<lparr>shape = [length xs], flat = xs\<rparr>
     = Inr \<lparr>shape = [length xs],
            flat = map (\<lambda>x. real (length (filter (\<lambda>y. y \<le> x) xs)) / real (length xs)) xs\<rparr> \<and>
   cumulative_distribution \<lparr>shape = [10], flat = [1, 4, 5, 1, 2, 2, 4, 1, 1, 3]\<rparr>
     = Inr \<lparr>shape = [10], flat = [0.4, 0.9, 1.0, 0.4, 0.6, 0.6, 0.9, 0.4, 0.4, 0.7]\<rparr>"
proof -
  have "cumulative_distribution \<lparr>shape = [10], flat = [1, 4, 5, 1, 2, 2, 4, 1, 1, 3]\<rparr>
     = Inr \<lparr>shape = [10], flat = [0.4, 0.9, 1.0, 0.4, 0.6, 0.6, 0.9, 0.4, 0.4, 0.7]\<rparr>"
    by code_simp
  then show ?thesis by (simp add: cumulative_distribution_1d count_le_def)
qed

lemma sum_list_affine:
  fixes f :: "real \<Rightarrow> real"
  shows "sum_list (map (\<lambda>r. (f r + a) / c) row)
     = (sum_list (map f row) + a * real (length row)) / c"
  by (induction row) (simp_all add: algebra_simps add_divide_distrib)

lemma mean_mbd_point:
  assumes "row \<noteq> []"
  shows "sum_list (map (mbd_point n) row) / real (length row) = mbd_of_row n row"
proof -
  have len: "real (length row) \<noteq> 0" using assms by simp
  have "map (mbd_point n) row = map (\<lambda>r. ((n - r) * (r - 1) + (n - 1)) / (n * (n - 1) / 2)) row"
    by (simp add: mbd_point_def algebra_simps)
  then have "sum_list (map (mbd_point n) row)
      = (sum_list (map (\<lambda>r. (n - r) * (r - 1)) row) + (n - 1) * real (length row))
          / (n * (n - 1) / 2)"
    by (simp only: sum_list_affine)
  then show ?thesis using len
    by (simp add: mbd_of_row_def field_simps)
qed

section \<open>Relations between the depth functions\<close>

text \<open>
  C6: on a valid grid with scalar values and at least two samples, the arithmetic mean
  over all grid points of the pointwise array returned by
  \<open>modified_band_depth(grid, pointwise=True)\<close> is, sample by sample, the depth returned
  by \<open>modified_band_depth(grid, pointwise=False)\<close>; over the reals the two are equal.
\<close>

theorem modified_band_depth_pointwise_mean:
  assumes "grid_ok fd" and "ndim_image fd = 1" and "2 \<le> nsamples fd"
  shows "\<exists>d dp. modified_band_depth fd True = Inr (DepthPointwise d dp) \<and>
           modified_band_depth fd False = Inr (Depth d) \<and>
           length d = nsamples fd \<and> length dp = nsamples fd \<and>
           (\<forall>i<nsamples fd. length (dp ! i) = npoints fd \<and>
              sum_list (dp ! i) / real (npoints fd) = d ! i)"
proof -
  let ?n = "real (nsamples fd)"
  let ?d = "map (\<lambda>i. mbd_of_row ?n (rank_row fd i)) [0..<nsamples fd]"
  let ?dp = "map (\<lambda>i. map (mbd_point ?n) (rank_row fd i)) [0..<nsamples fd]"
  have img: "\<not> 1 < ndim_image fd" using assms(2) by simp
  have t: "modified_band_depth fd True = Inr (DepthPointwise ?d ?dp)"
    by (simp add: modified_band_depth_ok [OF assms(1) img])
  have f: "modified_band_depth fd False = Inr (Depth ?d)"
    by (simp add: modified_band_depth_ok [OF assms(1) img])
  have "\<forall>i<nsamples fd. length (?dp ! i) = npoints fd \<and>
          sum_list (?dp ! i) / real (npoints fd) = ?d ! i"
  proof (intro allI impI)
    fix i assume i: "i < nsamples fd"
    have "sum_list (map (mbd_point ?n) (rank_row fd i)) / real (length (rank_row fd i))
        = mbd_of_row ?n (rank_row fd i)"
      using rank_row_nonempty [OF assms(1)] by (rule mean_mbd_point)
    then show "length (?dp ! i) = npoints fd \<and>
          sum_list (?dp ! i) / real (npoints fd) = ?d ! i"
      using i by (simp add: length_rank_row)
  qed
  moreover have "length ?d = nsamples fd" "length ?dp = nsamples fd" by simp_all
  ultimately show ?thesis using t f by blast
qed

theorem modified_band_depth_pointwise_mean_witness:
  "grid_ok ref_grid \<and> ndim_image ref_grid = 1 \<and> 2 \<le> nsamples ref_grid \<and>
   (\<exists>d dp. modified_band_depth ref_grid True = Inr (DepthPointwise d dp) \<and>
           modified_band_depth ref_grid False = Inr (Depth d) \<and>
           length d = nsamples ref_grid \<and> length dp = nsamples ref_grid \<and>
           (\<forall>i<nsamples ref_grid. length (dp ! i) = npoints ref_grid \<and>
              sum_list (dp ! i) / real (npoints ref_grid) = d ! i))"
proof -
  have h1: "grid_ok ref_grid" by (rule grid_ok_ref_grid)
  have h2: "ndim_image ref_grid = 1" by (simp add: ref_grid_def curve_grid_def)
  have h3: "2 \<le> nsamples ref_grid"
    by (simp add: ref_grid_def curve_grid_def nsamples_def ref_values_def)
  show ?thesis using h1 h2 h3 modified_band_depth_pointwise_mean [OF h1 h2 h3] by blast
qed

text \<open>
  C7: on a valid grid with scalar values and at least two samples, the pointwise array
  returned by \<open>band_depth(grid, pointwise=True)\<close> is the pointwise array returned by
  \<open>modified_band_depth(grid, pointwise=True)\<close>.
\<close>

theorem band_depth_pointwise_defers:
  assumes "grid_ok fd" and "ndim_image fd = 1" and "2 \<le> nsamples fd"
  shows "\<exists>d d' dp. band_depth fd True = Inr (DepthPointwise d dp) \<and>
           modified_band_depth fd True = Inr (DepthPointwise d' dp)"
proof -
  have img: "\<not> 1 < ndim_image fd" using assms(2) by simp
  show ?thesis
    by (simp add: band_depth_ok [OF assms(1) img] modified_band_depth_ok [OF assms(1) img])
qed

theorem band_depth_pointwise_defers_witness:
  "grid_ok ref_grid \<and> ndim_image ref_grid = 1 \<and> 2 \<le> nsamples ref_grid \<and>
   (\<exists>d d' dp. band_depth ref_grid True = Inr (DepthPointwise d dp) \<and>
           modified_band_depth ref_grid True = Inr (DepthPointwise d' dp))"
proof -
  have h1: "grid_ok ref_grid" by (rule grid_ok_ref_grid)
  have h2: "ndim_image ref_grid = 1" by (simp add: ref_grid_def curve_grid_def)
  have h3: "2 \<le> nsamples ref_grid"
    by (simp add: ref_grid_def curve_grid_def nsamples_def ref_values_def)
  show ?thesis using h1 h2 h3 band_depth_pointwise_defers [OF h1 h2 h3] by blast
qed

text \<open>
  C10: on a valid grid with scalar values and at least two samples, the depth array in
  the pair returned by \<open>band_depth(grid, pointwise=True)\<close> is the array returned by
  \<open>band_depth(grid, pointwise=False)\<close>.
\<close>

theorem band_depth_flag_independent:
  assumes "grid_ok fd" and "ndim_image fd = 1" and "2 \<le> nsamples fd"
  shows "\<exists>d dp. band_depth fd True = Inr (DepthPointwise d dp) \<and>
           band_depth fd False = Inr (Depth d)"
proof -
  have img: "\<not> 1 < ndim_image fd" using assms(2) by simp
  show ?thesis by (simp add: band_depth_ok [OF assms(1) img])
qed

theorem band_depth_flag_independent_witness:
  "grid_ok ref_grid \<and> ndim_image ref_grid = 1 \<and> 2 \<le> nsamples ref_grid \<and>
   (\<exists>d dp. band_depth ref_grid True = Inr (DepthPointwise d dp) \<and>
           band_depth ref_grid False = Inr (Depth d))"
proof -
  have h1: "grid_ok ref_grid" by (rule grid_ok_ref_grid)
  have h2: "ndim_image ref_grid = 1" by (simp add: ref_grid_def curve_grid_def)
  have h3: "2 \<le> nsamples ref_grid"
    by (simp add: ref_grid_def curve_grid_def nsamples_def ref_values_def)
  show ?thesis using h1 h2 h3 band_depth_flag_independent [OF h1 h2 h3] by blast
qed

lemma grid_ok_identical_grid: "grid_ok identical_grid"
  by (simp add: grid_ok_def identical_grid_def curve_grid_def nsamples_def
      ndim_domain_def npoints_def)

section \<open>Identical samples\<close>

lemma docstring_depths_reference_grid:
  "band_depth_doc ref_grid = [1 / 2, 5 / 6, 1 / 2, 1 / 2] \<and>
   modified_band_depth_doc ref_grid = [1 / 2, 5 / 6, 13 / 18, 2 / 3]"
proof -
  have "band_depth_doc ref_grid = [1 / 2, 5 / 6, 1 / 2, 1 / 2]" by code_simp
  moreover have "modified_band_depth_doc ref_grid = [1 / 2, 5 / 6, 13 / 18, 2 / 3]"
    by code_simp
  ultimately show ?thesis by simp
qed

text \<open>
  C2: on three identical curves the depth that the docstrings define, the fraction of
  the bands of two sample curves that contain the graph, is 1 for every sample, as the
  claim says, while \<open>band_depth\<close> and \<open>modified_band_depth\<close> return 2/3. All samples
  tie everywhere, so each has rank \<open>nsamples\<close> at every point, none counts as above
  it, and only the \<open>nsamples - 1\<close> pairs that contain the sample itself are credited.
\<close>

theorem identical_samples_divergence:
  "grid_ok identical_grid \<and> ndim_image identical_grid = 1 \<and> nsamples identical_grid = 3 \<and>
   data_matrix identical_grid ! 1 = data_matrix identical_grid ! 0 \<and>
   data_matrix identical_grid ! 2 = data_matrix identical_grid ! 0 \<and>
   band_depth identical_grid False = Inr (Depth [2 / 3, 2 / 3, 2 / 3]) \<and>
   band_depth_doc identical_grid = [1, 1, 1] \<and>
   modified_band_depth identical_grid False = Inr (Depth [2 / 3, 2 / 3, 2 / 3]) \<and>
   modified_band_depth_doc identical_grid = [1, 1, 1]"
proof -
  have b: "band_depth identical_grid False = Inr (Depth [2 / 3, 2 / 3, 2 / 3])"
    by code_simp
  have m: "modified_band_depth identical_grid False = Inr (Depth [2 / 3, 2 / 3, 2 / 3])"
    by code_simp
  have bd: "band_depth_doc identical_grid = [1, 1, 1]" by code_simp
  have md: "modified_band_depth_doc identical_grid = [1, 1, 1]" by code_simp
  have "ndim_image identical_grid = 1" "nsamples identical_grid = 3"
    "data_matrix identical_grid ! 1 = data_matrix identical_grid ! 0"
    "data_matrix identical_grid ! 2 = data_matrix identical_grid ! 0"
    by (simp_all add: identical_grid_def curve_grid_def nsamples_def)
  then show ?thesis using grid_ok_identical_grid by (simp add: b m bd md)
qed

section \<open>Reordering the samples\<close>

lemma perm_mset:
  assumes bij: "bij_betw p {..<n} {..<n}"
    and lx: "length xs = n" and ly: "length ys = n"
    and eq: "\<forall>i<n. ys ! p i = xs ! i"
  shows "mset ys = mset xs"
proof -
  have inj: "inj_on p {0..<n}" and img: "p ` {0..<n} = {0..<n}"
    using bij by (auto simp: bij_betw_def atLeast0LessThan)
  have "map (\<lambda>i. ys ! p i) [0..<n] = map (nth xs) [0..<n]"
  proof (rule map_cong [OF refl])
    fix i assume "i \<in> set [0..<n]"
    then have "i < n" by simp
    with eq show "ys ! p i = xs ! i" by blast
  qed
  also have "\<dots> = xs" using map_nth [of xs] lx by simp
  finally have "mset xs = mset (map (\<lambda>i. ys ! p i) [0..<n])" by simp
  also have "\<dots> = image_mset (nth ys) (image_mset p (mset_set {0..<n}))"
    by (simp add: multiset.map_comp o_def)
  also have "image_mset p (mset_set {0..<n}) = mset_set {0..<n}"
    using image_mset_mset_set [OF inj] img by simp
  also have "image_mset (nth ys) (mset_set {0..<n}) = mset (map (nth ys) [0..<n])"
    by simp
  also have "map (nth ys) [0..<n] = ys" using map_nth [of ys] ly by simp
  finally show ?thesis by simp
qed

lemma count_le_mset: "mset xs = mset ys \<Longrightarrow> count_le xs v = count_le ys v"
proof -
  assume "mset xs = mset ys"
  then have "mset (filter (\<lambda>u. u \<le> v) xs) = mset (filter (\<lambda>u. u \<le> v) ys)" by simp
  then show ?thesis unfolding count_le_def by (metis size_mset)
qed

lemma permuted_grid:
  assumes ok: "grid_ok fd"
    and bij: "bij_betw p {..<nsamples fd} {..<nsamples fd}"
    and len: "length dm' = nsamples fd"
    and eq: "\<forall>i<nsamples fd. dm' ! p i = data_matrix fd ! i"
  shows "grid_ok (fd\<lparr>data_matrix := dm'\<rparr>)"
    and "nsamples (fd\<lparr>data_matrix := dm'\<rparr>) = nsamples fd"
    and "npoints (fd\<lparr>data_matrix := dm'\<rparr>) = npoints fd"
    and "\<And>i. i < nsamples fd \<Longrightarrow> p i < nsamples fd"
    and "\<And>i. i < nsamples fd \<Longrightarrow> rank_row (fd\<lparr>data_matrix := dm'\<rparr>) (p i) = rank_row fd i"
proof -
  let ?fd' = "fd\<lparr>data_matrix := dm'\<rparr>"
  have ms: "mset dm' = mset (data_matrix fd)"
    using bij _ len eq by (rule perm_mset) (simp add: nsamples_def)
  then have st: "set dm' = set (data_matrix fd)" by (metis set_mset_mset)
  show n: "nsamples ?fd' = nsamples fd" using len by (simp add: nsamples_def)
  show P: "npoints ?fd' = npoints fd" by (simp add: npoints_def)
  show "grid_ok ?fd'"
    using ok n P st by (simp add: grid_ok_def ndim_domain_def list_all_iff)
  show pi: "\<And>i. i < nsamples fd \<Longrightarrow> p i < nsamples fd"
    using bij by (auto simp: bij_betw_def)
  fix i assume i: "i < nsamples fd"
  have "\<And>t. rank_at ?fd' (p i) t = rank_at fd i t"
  proof -
    fix t
    have "mset (column_at ?fd' t) = mset (column_at fd t)"
      using ms by (simp add: column_at_def)
    then have c: "\<And>v. count_le (column_at ?fd' t) v = count_le (column_at fd t) v"
      by (rule count_le_mset)
    from eq i have "dm' ! p i = data_matrix fd ! i" by blast
    then have "value_at ?fd' (p i) t = value_at fd i t"
      by (simp add: value_at_def)
    then show "rank_at ?fd' (p i) t = rank_at fd i t"
      by (simp only: rank_at_def c)
  qed
  then show "rank_row ?fd' (p i) = rank_row fd i" by (simp add: rank_row_def P)
qed

text \<open>
  C8: let \<open>p\<close> be a permutation of the sample indices of a valid grid with scalar
  values and at least two samples, and let the permuted grid hold sample \<open>i\<close> of the
  original at position \<open>p i\<close>. Then entry \<open>p i\<close> of the band depth (and of the
  modified band depth) of the permuted grid is entry \<open>i\<close> of that of the original.
\<close>

theorem depth_permutation_equivariant:
  assumes "grid_ok fd" and "ndim_image fd = 1" and "2 \<le> nsamples fd"
    and "bij_betw p {..<nsamples fd} {..<nsamples fd}"
    and "length dm' = nsamples fd"
    and "\<forall>i<nsamples fd. dm' ! p i = data_matrix fd ! i"
  shows "\<exists>d d' m m'.
     band_depth fd False = Inr (Depth d) \<and>
     band_depth (fd\<lparr>data_matrix := dm'\<rparr>) False = Inr (Depth d') \<and>
     modified_band_depth fd False = Inr (Depth m) \<and>
     modified_band_depth (fd\<lparr>data_matrix := dm'\<rparr>) False = Inr (Depth m') \<and>
     length d = nsamples fd \<and> length d' = nsamples fd \<and>
     length m = nsamples fd \<and> length m' = nsamples fd \<and>
     (\<forall>i<nsamples fd. d' ! p i = d ! i \<and> m' ! p i = m ! i)"
proof -
  let ?fd' = "fd\<lparr>data_matrix := dm'\<rparr>"
  let ?n = "nsamples fd"
  let ?d = "map (\<lambda>i. bd_of_row (real ?n) (rank_row fd i)) [0..<?n]"
  let ?d' = "map (\<lambda>i. bd_of_row (real ?n) (rank_row ?fd' i)) [0..<?n]"
  let ?m = "map (\<lambda>i. mbd_of_row (real ?n) (rank_row fd i)) [0..<?n]"
  let ?m' = "map (\<lambda>i. mbd_of_row (real ?n) (rank_row ?fd' i)) [0..<?n]"
  note pg = permuted_grid [OF assms(1) assms(4) assms(5) assms(6)]
  have img: "\<not> 1 < ndim_image fd" using assms(2) by simp
  have img': "\<not> 1 < ndim_image ?fd'" using assms(2) by simp
  have b: "band_depth fd False = Inr (Depth ?d)"
    by (simp add: band_depth_ok [OF assms(1) img])
  have b': "band_depth ?fd' False = Inr (Depth ?d')"
    by (simp add: band_depth_ok [OF pg(1) img'] pg(2))
  have m: "modified_band_depth fd False = Inr (Depth ?m)"
    by (simp add: modified_band_depth_ok [OF assms(1) img])
  have m': "modified_band_depth ?fd' False = Inr (Depth ?m')"
    by (simp add: modified_band_depth_ok [OF pg(1) img'] pg(2))
  have "\<forall>i<?n. ?d' ! p i = ?d ! i \<and> ?m' ! p i = ?m ! i"
    using pg(4) pg(5) by simp
  moreover have "length ?d = ?n" "length ?d' = ?n" "length ?m = ?n" "length ?m' = ?n"
    by simp_all
  ultimately show ?thesis using b b' m m' by blast
qed

lemma nsamples_ref_grid: "nsamples ref_grid = 4"
  by (simp add: ref_grid_def curve_grid_def nsamples_def ref_values_def)

lemma bij_swap01:
  assumes "2 \<le> n"
  shows "bij_betw swap01 {..<n} {..<n}"
  using assms by (intro bij_betw_byWitness [where f' = swap01]) (auto simp: swap01_def)

theorem depth_permutation_equivariant_witness:
  "grid_ok ref_grid \<and> ndim_image ref_grid = 1 \<and> 2 \<le> nsamples ref_grid \<and>
   bij_betw swap01 {..<nsamples ref_grid} {..<nsamples ref_grid} \<and>
   length ref_swapped = nsamples ref_grid \<and>
   ref_swapped ! swap01 0 = data_matrix ref_grid ! 0 \<and>
   ref_swapped ! swap01 1 = data_matrix ref_grid ! 1 \<and>
   ref_swapped ! swap01 2 = data_matrix ref_grid ! 2 \<and>
   ref_swapped ! swap01 3 = data_matrix ref_grid ! 3 \<and>
   (\<exists>d d' m m'.
     band_depth ref_grid False = Inr (Depth d) \<and>
     band_depth (ref_grid\<lparr>data_matrix := ref_swapped\<rparr>) False = Inr (Depth d') \<and>
     modified_band_depth ref_grid False = Inr (Depth m) \<and>
     modified_band_depth (ref_grid\<lparr>data_matrix := ref_swapped\<rparr>) False = Inr (Depth m') \<and>
     length d = nsamples ref_grid \<and> length d' = nsamples ref_grid \<and>
     length m = nsamples ref_grid \<and> length m' = nsamples ref_grid \<and>
     (\<forall>i<nsamples ref_grid. d' ! swap01 i = d ! i \<and> m' ! swap01 i = m ! i))"
proof -
  have h1: "grid_ok ref_grid" by (rule grid_ok_ref_grid)
  have h2: "ndim_image ref_grid = 1" by (simp add: ref_grid_def curve_grid_def)
  have h3: "2 \<le> nsamples ref_grid" by (simp add: nsamples_ref_grid)
  have h4: "bij_betw swap01 {..<nsamples ref_grid} {..<nsamples ref_grid}"
    using h3 by (rule bij_swap01)
  have h5: "length ref_swapped = nsamples ref_grid"
    by (simp add: nsamples_ref_grid ref_swapped_def)
  have e: "ref_swapped ! swap01 0 = data_matrix ref_grid ! 0"
    "ref_swapped ! swap01 1 = data_matrix ref_grid ! 1"
    "ref_swapped ! swap01 2 = data_matrix ref_grid ! 2"
    "ref_swapped ! swap01 3 = data_matrix ref_grid ! 3"
    by (simp_all add: ref_swapped_def swap01_def)
  have h6: "\<forall>i<nsamples ref_grid. ref_swapped ! swap01 i = data_matrix ref_grid ! i"
  proof (intro allI impI)
    fix i assume "i < nsamples ref_grid"
    then have "i = 0 \<or> i = 1 \<or> i = 2 \<or> i = 3" unfolding nsamples_ref_grid by arith
    with e show "ref_swapped ! swap01 i = data_matrix ref_grid ! i" by blast
  qed
  show ?thesis
    using h1 h2 h3 h4 h5 e depth_permutation_equivariant [OF h1 h2 h3 h4 h5 h6] by blast
qed

section \<open>Fraiman-Muniz depth in closed form\<close>

lemma simps_Inr:
  assumes "length x = length y" "y \<noteq> []"
  shows "simps y x = Inr (simps_val y x)"
  using assms by (simp add: simps_def simps_val_def Let_def)

lemma fm_shape:
  assumes "grid_ok fd" "ndim_domain fd = 1"
  obtains x0 lo hi where "sample_points fd = [x0]" "x0 \<noteq> []" "npoints fd = length x0"
    "domain_range fd = [(lo, hi)]"
proof -
  from assms(2) obtain x0 where sp: "sample_points fd = [x0]"
    by (cases "sample_points fd") (auto simp: ndim_domain_def)
  from assms have "length (domain_range fd) = 1" by (simp add: grid_ok_def)
  then obtain d where "domain_range fd = [d]"
    by (cases "domain_range fd") auto
  then have dr: "domain_range fd = [(fst d, snd d)]" by simp
  from assms(1) sp have ne: "x0 \<noteq> []" by (simp add: grid_ok_def)
  have np: "npoints fd = length x0" using sp by (simp add: npoints_def)
  show ?thesis by (rule that [OF sp ne np dr])
qed

lemma fm_columns:
  "map_result
     (\<lambda>i. case cumulative_distribution \<lparr>shape = [nsamples fd], flat = column_at fd i\<rparr> of
             Inl e \<Rightarrow> Inl e
           | Inr F \<Rightarrow> Inr (map (\<lambda>f. 1 - \<bar>0.5 - f\<bar>) (flat F)))
     ts
   = Inr (map (\<lambda>t. map (\<lambda>x. 1 - \<bar>0.5 - real (count_le (column_at fd t) x) / real (nsamples fd)\<bar>)
                    (column_at fd t)) ts)"
  by (rule map_result_Inr) (simp add: cumulative_distribution_1d o_def)

lemma fm_transpose:
  "map (\<lambda>i. map (\<lambda>c. c ! i)
         (map (\<lambda>t. map (\<lambda>x. 1 - \<bar>0.5 - real (count_le (column_at fd t) x) / real (nsamples fd)\<bar>)
                    (column_at fd t)) [0..<npoints fd]))
     [0..<nsamples fd]
   = map (fm_row fd) [0..<nsamples fd]"
  by (simp add: fm_row_def fm_at_def rank_at_def length_column_at column_at_nth)

lemma fraiman_muniz_depth_ok:
  assumes "grid_ok fd" "ndim_domain fd = 1" "\<not> 1 < ndim_image fd"
  shows "fraiman_muniz_depth fd pointwise =
     Inr (if pointwise then DepthPointwise (fm_depths fd) (map (fm_row fd) [0..<nsamples fd])
          else Depth (fm_depths fd))"
proof -
  from assms(1,2) obtain x0 lo hi where sh: "sample_points fd = [x0]" "x0 \<noteq> []"
    "npoints fd = length x0" "domain_range fd = [(lo, hi)]"
    by (rule fm_shape)
  have tr: "map (\<lambda>i. map (\<lambda>c. c ! i)
         (map (\<lambda>t. map (\<lambda>x. 1 - \<bar>0.5 - real (count_le (column_at fd t) x) / real (nsamples fd)\<bar>)
                    (column_at fd t)) [0..<length x0]))
     [0..<nsamples fd] = map (fm_row fd) [0..<nsamples fd]"
    using fm_transpose [of fd] sh(3) by simp
  have integ: "map_result (\<lambda>row. simps row x0) (map (fm_row fd) [0..<nsamples fd])
      = Inr (map (\<lambda>row. simps_val row x0) (map (fm_row fd) [0..<nsamples fd]))"
  proof (rule map_result_Inr)
    fix row assume "row \<in> set (map (fm_row fd) [0..<nsamples fd])"
    then have "length row = length x0" using sh(3) by (auto simp: fm_row_def)
    then show "simps row x0 = Inr (simps_val row x0)"
      using sh(2) by (intro simps_Inr) auto
  qed
  have g: "\<not> (1 < ndim_domain fd \<or> 1 < ndim_image fd)" using assms(2,3) by simp
  have "fraiman_muniz_depth fd pointwise =
     (let depth = map (\<lambda>v. v / (hi - lo))
                    (map (\<lambda>row. simps_val row x0) (map (fm_row fd) [0..<nsamples fd]))
      in if pointwise then Inr (DepthPointwise depth (map (fm_row fd) [0..<nsamples fd]))
         else Inr (Depth depth))"
    by (simp only: fraiman_muniz_depth_def g if_False sh(1,4) list.case fm_columns sum.case
        Let_def tr integ prod.case)
  then show ?thesis
    by (simp add: Let_def fm_depths_def sh(1,4) o_def)
qed

section \<open>Dimension errors\<close>

lemma cumulative_distribution_isl:
  "isl (cumulative_distribution column) \<longleftrightarrow> length (shape column) \<noteq> 1"
  by (simp add: cumulative_distribution_def Let_def split: prod.splits)

lemma cumulative_distribution_invalid:
  "invalid_dimension (cumulative_distribution column) \<longleftrightarrow> length (shape column) \<noteq> 1"
  by (simp add: cumulative_distribution_def invalid_dimension_def Let_def split: prod.splits)

lemma rank_samples_raises:
  assumes "1 < ndim_image fd"
  shows "rank_samples fd = Inl (ValueError ''Currently multivariate data is not allowed'')"
    and "band_depth fd pointwise = Inl (ValueError ''Currently multivariate data is not allowed'')"
    and "modified_band_depth fd pointwise
           = Inl (ValueError ''Currently multivariate data is not allowed'')"
    and "fraiman_muniz_depth fd pointwise
           = Inl (ValueError ''Currently multivariate data is not allowed'')"
  using assms
  by (simp_all add: rank_samples_def band_depth_def modified_band_depth_def
      fraiman_muniz_depth_def Let_def)

lemma fraiman_muniz_domain_raises:
  assumes "1 < ndim_domain fd"
  shows "fraiman_muniz_depth fd pointwise
           = Inl (ValueError ''Currently multivariate data is not allowed'')"
  using assms by (simp add: fraiman_muniz_depth_def)

text \<open>
  C9: on a well-shaped grid each operation raises the dimension error, and fails at all,
  exactly when its precondition is violated, and then returns nothing else: the rank
  engine, band depth and modified band depth exactly when the image dimension exceeds
  one; the empirical distribution step exactly when its array is not one-dimensional;
  Fraiman-Muniz depth exactly when the domain dimension is other than one or the image
  dimension exceeds one.
\<close>

theorem invalid_dimension_raised:
  assumes "grid_ok fd"
  shows "(invalid_dimension (rank_samples fd) \<longleftrightarrow> 1 < ndim_image fd) \<and>
         (isl (rank_samples fd) \<longleftrightarrow> 1 < ndim_image fd) \<and>
         (invalid_dimension (band_depth fd pointwise) \<longleftrightarrow> 1 < ndim_image fd) \<and>
         (isl (band_depth fd pointwise) \<longleftrightarrow> 1 < ndim_image fd) \<and>
         (invalid_dimension (modified_band_depth fd pointwise) \<longleftrightarrow> 1 < ndim_image fd) \<and>
         (isl (modified_band_depth fd pointwise) \<longleftrightarrow> 1 < ndim_image fd) \<and>
         (invalid_dimension (cumulative_distribution column) \<longleftrightarrow> length (shape column) \<noteq> 1) \<and>
         (isl (cumulative_distribution column) \<longleftrightarrow> length (shape column) \<noteq> 1) \<and>
         (invalid_dimension (fraiman_muniz_depth fd pointwise)
            \<longleftrightarrow> ndim_domain fd \<noteq> 1 \<or> 1 < ndim_image fd) \<and>
         (isl (fraiman_muniz_depth fd pointwise)
            \<longleftrightarrow> ndim_domain fd \<noteq> 1 \<or> 1 < ndim_image fd)"
proof (cases "1 < ndim_image fd")
  case True
  then show ?thesis
    by (simp add: rank_samples_raises invalid_dimension_def cumulative_distribution_isl
        cumulative_distribution_invalid [unfolded invalid_dimension_def])
next
  case False
  have dom: "1 \<le> ndim_domain fd" using assms by (simp add: grid_ok_def)
  have fm: "(invalid_dimension (fraiman_muniz_depth fd pointwise) \<longleftrightarrow> ndim_domain fd \<noteq> 1) \<and>
        (isl (fraiman_muniz_depth fd pointwise) \<longleftrightarrow> ndim_domain fd \<noteq> 1)"
  proof (cases "ndim_domain fd = 1")
    case True
    then show ?thesis
      by (simp add: fraiman_muniz_depth_ok [OF assms True False] invalid_dimension_def)
  next
    case False
    with dom have "1 < ndim_domain fd" by simp
    then show ?thesis using False
      by (simp add: fraiman_muniz_domain_raises invalid_dimension_def)
  qed
  show ?thesis using False fm
    by (simp add: rank_samples_ok [OF assms False] band_depth_ok [OF assms False]
        modified_band_depth_ok [OF assms False] invalid_dimension_def
        cumulative_distribution_isl cumulative_distribution_invalid [unfolded invalid_dimension_def])
qed

lemma grid_ok_mv_grid: "grid_ok mv_grid"
  by (simp add: grid_ok_def mv_grid_def nsamples_def ndim_domain_def npoints_def)

theorem invalid_dimension_raised_witness:
  "grid_ok mv_grid \<and>
   (invalid_dimension (rank_samples mv_grid) \<longleftrightarrow> 1 < ndim_image mv_grid) \<and>
   (isl (rank_samples mv_grid) \<longleftrightarrow> 1 < ndim_image mv_grid) \<and>
   (invalid_dimension (band_depth mv_grid False) \<longleftrightarrow> 1 < ndim_image mv_grid) \<and>
   (isl (band_depth mv_grid False) \<longleftrightarrow> 1 < ndim_image mv_grid) \<and>
   (invalid_dimension (modified_band_depth mv_grid False) \<longleftrightarrow> 1 < ndim_image mv_grid) \<and>
   (isl (modified_band_depth mv_grid False) \<longleftrightarrow> 1 < ndim_image mv_grid) \<and>
   (invalid_dimension (cumulative_distribution \<lparr>shape = [2, 2], flat = [1, 2, 3, 4]\<rparr>)
      \<longleftrightarrow> length (shape \<lparr>shape = [2, 2], flat = [1, 2, 3, 4]\<rparr>) \<noteq> 1) \<and>
   (isl (cumulative_distribution \<lparr>shape = [2, 2], flat = [1, 2, 3, 4]\<rparr>)
      \<longleftrightarrow> length (shape \<lparr>shape = [2, 2], flat = [1, 2, 3, 4]\<rparr>) \<noteq> 1) \<and>
   (invalid_dimension (fraiman_muniz_depth mv_grid False)
      \<longleftrightarrow> ndim_domain mv_grid \<noteq> 1 \<or> 1 < ndim_image mv_grid) \<and>
   (isl (fraiman_muniz_depth mv_grid False)
      \<longleftrightarrow> ndim_domain mv_grid \<noteq> 1 \<or> 1 < ndim_image mv_grid)"
proof -
  have h1: "grid_ok mv_grid" by (rule grid_ok_mv_grid)
  show ?thesis
    using h1 invalid_dimension_raised [OF h1, of False
        "\<lparr>shape = [2, 2], flat = [1, 2, 3, 4]\<rparr>"]
    by blast
qed

section \<open>The range of the depths\<close>

lemma fm_at_bounds:
  assumes "i < nsamples fd"
  shows "1 / 2 \<le> fm_at fd i t" and "fm_at fd i t \<le> 1"
proof -
  from rank_at_nat [OF assms, of t] obtain k where
    k: "rank_at fd i t = real k" "1 \<le> k" "k \<le> nsamples fd" by blast
  have n: "0 < real (nsamples fd)" using assms by simp
  define q where "q = rank_at fd i t / real (nsamples fd)"
  have "0 \<le> q" unfolding q_def k(1) by simp
  moreover have "q \<le> 1" unfolding q_def k(1) using k(3) n by simp
  ultimately have "1 / 2 \<le> 1 - \<bar>0.5 - q\<bar>" and "1 - \<bar>0.5 - q\<bar> \<le> 1" by linarith+
  then show "1 / 2 \<le> fm_at fd i t" and "fm_at fd i t \<le> 1"
    unfolding fm_at_def q_def by blast+
qed

lemma bd_depths_in_range:
  assumes "grid_ok fd" "2 \<le> nsamples fd"
  shows "list_all (in_range 0 1)
           (map (\<lambda>i. bd_of_row (real (nsamples fd)) (rank_row fd i)) [0..<nsamples fd])"
proof -
  have "in_range 0 1 (bd_of_row (real (nsamples fd)) (rank_row fd i))" if "i < nsamples fd" for i
    unfolding in_range_def
    using bd_of_row_bounds [OF ranks_in_rank_row [OF that] rank_row_nonempty [OF assms(1)] assms(2)]
    by simp
  then show ?thesis by (simp add: list_all_iff)
qed

lemma mbd_depths_in_range:
  assumes "grid_ok fd" "2 \<le> nsamples fd"
  shows "list_all (in_range 0 1)
           (map (\<lambda>i. mbd_of_row (real (nsamples fd)) (rank_row fd i)) [0..<nsamples fd])"
proof -
  have "in_range 0 1 (mbd_of_row (real (nsamples fd)) (rank_row fd i))" if "i < nsamples fd" for i
    unfolding in_range_def
    using mbd_of_row_bounds [OF ranks_in_rank_row [OF that] rank_row_nonempty [OF assms(1)] assms(2)]
    by simp
  then show ?thesis by (simp add: list_all_iff)
qed

lemma mbd_pointwise_in_range:
  assumes "2 \<le> nsamples fd"
  shows "list_all (list_all (in_range 0 1))
           (map (\<lambda>i. map (mbd_point (real (nsamples fd))) (rank_row fd i)) [0..<nsamples fd])"
proof -
  have "in_range 0 1 (mbd_point (real (nsamples fd)) r)"
    if "i < nsamples fd" "r \<in> set (rank_row fd i)" for i r
  proof -
    from ranks_in_rank_row [OF that(1)] that(2) obtain k where
      k: "r = real k" "1 \<le> k" "k \<le> nsamples fd"
      by (auto simp: ranks_in_def list_all_iff)
    from mbd_point_bounds [OF k assms] show ?thesis by (simp add: in_range_def)
  qed
  then show ?thesis by (simp add: list_all_iff)
qed

lemma fm_pointwise_in_range:
  "list_all (list_all (in_range (1 / 2) 1)) (map (fm_row fd) [0..<nsamples fd])"
proof -
  have "in_range (1 / 2) 1 (fm_at fd i t)" if "i < nsamples fd" for i t
    using fm_at_bounds [OF that, of t] by (simp add: in_range_def)
  then show ?thesis by (simp add: list_all_iff fm_row_def)
qed

lemma grid_ok_nonuniform_grid: "grid_ok nonuniform_grid"
  by (simp add: grid_ok_def nonuniform_grid_def curve_grid_def nsamples_def
      ndim_domain_def npoints_def)

text \<open>
  C5, as stated, fails for Fraiman-Muniz depth on unequally spaced coordinates: over the
  points 0, 1, 4 the Simpson panel gives the first point the weight -2/3, and the two
  curves below receive the depths 13/12 and 5/12, both outside [1/2, 1].
\<close>

theorem fraiman_muniz_range_counterexample:
  "grid_ok nonuniform_grid \<and> ndim_domain nonuniform_grid = 1 \<and>
   ndim_image nonuniform_grid = 1 \<and> 2 \<le> nsamples nonuniform_grid \<and>
   sample_points nonuniform_grid = [[0, 1, 4]] \<and> domain_range nonuniform_grid = [(0, 4)] \<and>
   fraiman_muniz_depth nonuniform_grid False = Inr (Depth [13 / 12, 5 / 12]) \<and>
   \<not> in_range (1 / 2) 1 (13 / 12) \<and> \<not> in_range (1 / 2) 1 (5 / 12)"
proof -
  have "fraiman_muniz_depth nonuniform_grid False = Inr (Depth [13 / 12, 5 / 12])"
    by code_simp
  moreover have "ndim_domain nonuniform_grid = 1" "ndim_image nonuniform_grid = 1"
    "2 \<le> nsamples nonuniform_grid" "sample_points nonuniform_grid = [[0, 1, 4]]"
    "domain_range nonuniform_grid = [(0, 4)]"
    by (simp_all add: nonuniform_grid_def curve_grid_def nsamples_def ndim_domain_def)
  moreover have "\<not> in_range (1 / 2) 1 (13 / 12)" "\<not> in_range (1 / 2) 1 (5 / 12)"
    by (simp_all add: in_range_def)
  ultimately show ?thesis using grid_ok_nonuniform_grid by blast
qed

text \<open>
  C5, amended: on a valid grid with scalar values and at least two samples, every value
  of the depth array and of the pointwise array returned by band depth and by modified
  band depth lies in [0, 1]; with one domain axis Fraiman-Muniz depth returns one depth
  per sample, and every value of its pointwise array lies in [1/2, 1]. Nothing is said
  of the range of the integrated Fraiman-Muniz depth.
\<close>

theorem depth_ranges:
  assumes "grid_ok fd" and "ndim_image fd = 1" and "2 \<le> nsamples fd"
  shows "(\<exists>r. band_depth fd pointwise = Inr r \<and> length (depth_of r) = nsamples fd \<and>
            list_all (in_range 0 1) (depth_of r) \<and>
            list_all (list_all (in_range 0 1)) (pointwise_of r)) \<and>
         (\<exists>r. modified_band_depth fd pointwise = Inr r \<and> length (depth_of r) = nsamples fd \<and>
            list_all (in_range 0 1) (depth_of r) \<and>
            list_all (list_all (in_range 0 1)) (pointwise_of r)) \<and>
         (ndim_domain fd = 1 \<longrightarrow>
            (\<exists>d dp. fraiman_muniz_depth fd True = Inr (DepthPointwise d dp) \<and>
               length d = nsamples fd \<and> length dp = nsamples fd \<and>
               list_all (\<lambda>row. length row = npoints fd) dp \<and>
               list_all (list_all (in_range (1 / 2) 1)) dp))"
proof -
  have img: "\<not> 1 < ndim_image fd" using assms(2) by simp
  note bd = bd_depths_in_range [OF assms(1,3)]
  note md = mbd_depths_in_range [OF assms(1,3)]
  note mp = mbd_pointwise_in_range [OF assms(3)]
  have A: "\<exists>r. band_depth fd pointwise = Inr r \<and> length (depth_of r) = nsamples fd \<and>
            list_all (in_range 0 1) (depth_of r) \<and>
            list_all (list_all (in_range 0 1)) (pointwise_of r)"
    using bd mp by (cases pointwise) (simp_all add: band_depth_ok [OF assms(1) img])
  have B: "\<exists>r. modified_band_depth fd pointwise = Inr r \<and> length (depth_of r) = nsamples fd \<and>
            list_all (in_range 0 1) (depth_of r) \<and>
            list_all (list_all (in_range 0 1)) (pointwise_of r)"
    using md mp by (cases pointwise) (simp_all add: modified_band_depth_ok [OF assms(1) img])
  have C: "\<exists>d dp. fraiman_muniz_depth fd True = Inr (DepthPointwise d dp) \<and>
               length d = nsamples fd \<and> length dp = nsamples fd \<and>
               list_all (\<lambda>row. length row = npoints fd) dp \<and>
               list_all (list_all (in_range (1 / 2) 1)) dp"
    if "ndim_domain fd = 1"
    using fm_pointwise_in_range [of fd]
    by (simp add: fraiman_muniz_depth_ok [OF assms(1) that img] fm_depths_def
        list_all_iff fm_row_def)
  from A B C show ?thesis by blast
qed

theorem depth_ranges_witness:
  "grid_ok ref_grid \<and> ndim_image ref_grid = 1 \<and> 2 \<le> nsamples ref_grid \<and>
   (\<exists>r. band_depth ref_grid False = Inr r \<and> length (depth_of r) = nsamples ref_grid \<and>
      list_all (in_range 0 1) (depth_of r) \<and>
      list_all (list_all (in_range 0 1)) (pointwise_of r)) \<and>
   (\<exists>r. modified_band_depth ref_grid False = Inr r \<and> length (depth_of r) = nsamples ref_grid \<and>
      list_all (in_range 0 1) (depth_of r) \<and>
      list_all (list_all (in_range 0 1)) (pointwise_of r)) \<and>
   ndim_domain ref_grid = 1 \<and>
   (\<exists>d dp. fraiman_muniz_depth ref_grid True = Inr (DepthPointwise d dp) \<and>
      length d = nsamples ref_grid \<and> length dp = nsamples ref_grid \<and>
      list_all (\<lambda>row. length row = npoints ref_grid) dp \<and>
      list_all (list_all (in_range (1 / 2) 1)) dp)"
proof -
  have h1: "grid_ok ref_grid" by (rule grid_ok_ref_grid)
  have h2: "ndim_image ref_grid = 1" by (simp add: ref_grid_def curve_grid_def)
  have h3: "2 \<le> nsamples ref_grid" by (simp add: nsamples_ref_grid)
  have g: "ndim_domain ref_grid = 1"
    by (simp add: ref_grid_def curve_grid_def ndim_domain_def)
  show ?thesis
    using h1 h2 h3 g depth_ranges [OF h1 h2 h3, of False] by blast
qed

end
